theory Spec2Isabelle
  imports Main "HOL-Library.Word"
begin

section \<open>Data model of mapper.go\<close>

text \<open>
  Go's \<open>rune\<close> is \<open>int32\<close>, \<open>fixed.Int26_6\<close> is \<open>int32\<close> and \<open>truetype.Index\<close> is
  \<open>uint16\<close>: all three are machine words, so that \<open>+\<close>, \<open>-\<close> and unary minus wrap
  around as they do in Go.  Signed comparisons are \<open><=s\<close> and \<open><s\<close>, the unsigned
  comparison of an \<open>Index\<close> is \<open><\<close>.  Go's \<open>int\<close> (contour end indices, the scan
  counter \<open>j\<close>, the concurrency limit) never comes near its 64-bit bounds here and is
  \<open>int\<close>.
\<close>

type_synonym rune = "32 word"
type_synonym Int26_6 = "32 word"
type_synonym glyph_index = "16 word"
type_synonym go_error = string

record Point26_6 =
  PX :: Int26_6
  PY :: Int26_6

record Rectangle26_6 =
  Min_pt :: Point26_6
  Max_pt :: Point26_6

text \<open>\<open>fixed.Rectangle26_6.Empty\<close>: the rectangle contains no point.\<close>

definition Empty :: "Rectangle26_6 \<Rightarrow> bool" where
  "Empty r \<longleftrightarrow> PX (Max_pt r) <=s PX (Min_pt r) \<or> PY (Max_pt r) <=s PY (Min_pt r)"

text \<open>\<open>truetype.Point\<close> and the two fields of \<open>truetype.GlyphBuf\<close> the mapper reads.\<close>

record Point =
  X :: Int26_6
  Y :: Int26_6
  Flags :: "32 word"

record GlyphBuf =
  Points :: "Point list"
  Ends :: "int list"

datatype Hinting = HintingNone | HintingVertical | HintingFull

text \<open>
  A parsed \<open>*truetype.Font\<close> is the outline provider, a collaborator outside the
  repository.  It is a parameter of the model: a record of the three queries the mapper
  makes, each an arbitrary function.  \<open>GlyphBounds\<close> takes the size given to
  \<open>truetype.NewFace\<close>; \<open>Load\<close> takes the scale, the glyph index and the hinting mode
  and answers an error or the filled buffer.
\<close>

record Font =
  Index :: "rune \<Rightarrow> glyph_index"
  GlyphBounds :: "nat \<Rightarrow> rune \<Rightarrow> Rectangle26_6 \<times> Int26_6 \<times> bool"
  Load :: "Int26_6 \<Rightarrow> glyph_index \<Rightarrow> Hinting \<Rightarrow> go_error + GlyphBuf"

text \<open>
  The semaphore \<open>sem\<close> is a buffered channel of empty structs: what the mapper observes
  of it is its capacity and whether it has been closed.
\<close>

record chan =
  capacity :: int
  closed :: bool

text \<open>
  \<open>GlyphOutlineMapper\<close>.  The two fonts are pointers and may be \<open>nil\<close>.  The
  \<open>WaitGroup\<close> only makes \<open>Mapping\<close> wait for its tasks; its counter is back at zero
  whenever \<open>Mapping\<close> returns and is not part of the state.
\<close>

record GlyphOutlineMapper =
  specialFont :: "Font option"
  standardFont :: "Font option"
  concurrent :: int
  sem :: chan

section \<open>Glyph existence: \<open>hasGlyph\<close>\<close>

definition hasGlyph :: "Font option \<Rightarrow> rune \<Rightarrow> bool" where
  "hasGlyph font char =
    (case font of
       None \<Rightarrow> False
     | Some f \<Rightarrow>
        (let index = Index f char in
         if index = 0 \<and> char \<noteq> 0 then False
         else
          (case GlyphBounds f 12 char of
             (bounds, advance, ok) \<Rightarrow>
               if \<not> ok then False
               else if Empty bounds \<and> advance = 0 then False
               else if 0xE000 <=s char \<and> char <=s 0xF8FF then
                 (if 0 <s advance then True
                  else if \<not> Empty bounds then True
                  else if 0 < index then True
                  else False)
               else if 0 < index then True
               else False)))"

section \<open>Outline comparison: \<open>compareGlyphOutlines\<close>\<close>

text \<open>
  The two loops walk the slices by index.  Each runs only after the lengths were found
  equal, so the walk over two lists below stops on both at once; the clauses for lists of
  different length are never reached from \<open>compareGlyphOutlines\<close>.
\<close>

fun ends_loop :: "int list \<Rightarrow> int list \<Rightarrow> bool" where
  "ends_loop (a # as) (b # bs) = (if a \<noteq> b then False else ends_loop as bs)"
| "ends_loop _ _ = True"

definition tolerance :: Int26_6 where
  "tolerance = 10"

text \<open>\<open>dx\<close> after the two statements \<open>dx := a - b; if dx < 0 { dx = -dx }\<close>.\<close>

definition abs_diff :: "Int26_6 \<Rightarrow> Int26_6 \<Rightarrow> Int26_6" where
  "abs_diff a b = (let d = a - b in if d <s 0 then - d else d)"

fun points_loop :: "Point list \<Rightarrow> Point list \<Rightarrow> bool" where
  "points_loop (p # ps) (q # qs) =
     (let dx = abs_diff (X p) (X q); dy = abs_diff (Y p) (Y q) in
      if tolerance <s dx \<or> tolerance <s dy then False else points_loop ps qs)"
| "points_loop _ _ = True"

definition compareGlyphOutlines :: "GlyphBuf \<Rightarrow> GlyphBuf \<Rightarrow> bool" where
  "compareGlyphOutlines buf1 buf2 =
    (if length (Ends buf1) \<noteq> length (Ends buf2) then False
     else if \<not> ends_loop (Ends buf1) (Ends buf2) then False
     else if length (Points buf1) \<noteq> length (Points buf2) then False
     else points_loop (Points buf1) (Points buf2))"

section \<open>Outline equality of two codepoints: \<open>GlyphOutlineEqual\<close>\<close>

text \<open>
  A panic is a value.  Calls of the mapper's own functions are recorded: each function of
  the resolver returns, next to its result, the calls that were made, in order, so that a
  statement can say which functions a call invoked.
\<close>

datatype panic =
  NilDereference | SendOnClosedChannel | CloseOfClosedChannel | MakeChanSizeOutOfRange

datatype side = Special | Standard

datatype call =
  CallHasGlyph side rune | CallGlyphOutlineEqual rune rune | CallCompareGlyphOutlines

text \<open>\<open>fixed.I\<close>: the integer as a 26.6 fixed-point number.\<close>

definition fixed_I :: "int \<Rightarrow> Int26_6" where
  "fixed_I i = word_of_int (i * 64)"

text \<open>\<open>Font.Index\<close> on a \<open>nil\<close> font dereferences it and panics.\<close>

definition GlyphOutlineEqual ::
  "GlyphOutlineMapper \<Rightarrow> rune \<Rightarrow> rune \<Rightarrow> panic + (bool \<times> call list)" where
  "GlyphOutlineEqual g specialUnicode standardUnicode =
    (case specialFont g of
       None \<Rightarrow> Inl NilDereference
     | Some f1 \<Rightarrow>
        (case standardFont g of
           None \<Rightarrow> Inl NilDereference
         | Some f2 \<Rightarrow>
            (let index1 = Index f1 specialUnicode;
                 index2 = Index f2 standardUnicode
             in
             if index1 = 0 \<or> index2 = 0
             then Inr (False, [CallGlyphOutlineEqual specialUnicode standardUnicode])
             else
              (case Load f1 (fixed_I 1000) index1 HintingNone of
                 Inl err \<Rightarrow> Inr (False, [CallGlyphOutlineEqual specialUnicode standardUnicode])
               | Inr buf1 \<Rightarrow>
                  (case Load f2 (fixed_I 1000) index2 HintingNone of
                     Inl err \<Rightarrow>
                      Inr (False, [CallGlyphOutlineEqual specialUnicode standardUnicode])
                   | Inr buf2 \<Rightarrow>
                      Inr (compareGlyphOutlines buf1 buf2,
                           [CallGlyphOutlineEqual specialUnicode standardUnicode,
                            CallCompareGlyphOutlines]))))))"

text \<open>The boolean \<open>GlyphOutlineEqual\<close> returns, false where it panics.\<close>

definition outlines_equal :: "GlyphOutlineMapper \<Rightarrow> rune \<Rightarrow> rune \<Rightarrow> bool" where
  "outlines_equal g specialUnicode standardUnicode =
    (case GlyphOutlineEqual g specialUnicode standardUnicode of
       Inl p \<Rightarrow> False
     | Inr (ok, calls) \<Rightarrow> ok)"

section \<open>The resolver: \<open>MappingRune\<close>\<close>

text \<open>
  The loop \<open>for j := 0x4e00; j <= 0x9fff; j++\<close> of \<open>MappingRune\<close>, entered at \<open>j\<close>
  with the current value of the named result \<open>ok\<close> and the calls made so far.  The named
  results \<open>specialRune\<close> and \<open>standardRune\<close> are still zero when the loop runs out.
\<close>

function scan ::
  "GlyphOutlineMapper \<Rightarrow> rune \<Rightarrow> int \<Rightarrow> bool \<Rightarrow> call list
    \<Rightarrow> panic + ((rune \<times> rune \<times> bool) \<times> call list)" where
  "scan g unicode j ok log =
    (if j \<le> 0x9fff then
       (if \<not> hasGlyph (standardFont g) (word_of_int j)
        then scan g unicode (j + 1) False (log @ [CallHasGlyph Standard (word_of_int j)])
        else
         (case GlyphOutlineEqual g unicode (word_of_int j) of
            Inl p \<Rightarrow> Inl p
          | Inr (ok', calls) \<Rightarrow>
              if ok'
              then Inr ((unicode, word_of_int j, ok'),
                        log @ CallHasGlyph Standard (word_of_int j) # calls)
              else scan g unicode (j + 1) ok'
                        (log @ CallHasGlyph Standard (word_of_int j) # calls)))
     else Inr ((0, 0, ok), log))"
  by pat_completeness auto
termination
  by (relation "measure (\<lambda>(g, unicode, j, ok, log). nat (0x9fff + 1 - j))") auto

declare scan.simps [simp del]

definition MappingRune ::
  "GlyphOutlineMapper \<Rightarrow> rune \<Rightarrow> panic + ((rune \<times> rune \<times> bool) \<times> call list)" where
  "MappingRune g unicode =
    (let ok = hasGlyph (specialFont g) unicode
     in if \<not> ok then Inr ((0, 0, ok), [CallHasGlyph Special unicode])
        else scan g unicode 0x4e00 ok [CallHasGlyph Special unicode])"

section \<open>The batch driver: \<open>Mapping\<close>, \<open>SetConcurrent\<close>, the constructor\<close>

type_synonym table = "rune \<rightharpoonup> rune"

text \<open>
  A send on the semaphore as \<open>Mapping\<close> meets it.  On a closed channel it panics.  On
  an unbuffered channel it blocks for ever, because a task receives only after its own
  send went through (\<open>None\<close>: the call does not return).  Otherwise it returns, at the
  latest when a running task has given its permit back; every task does, since
  \<open>MappingRune\<close> is a bounded loop.
\<close>

definition send :: "chan \<Rightarrow> (panic + unit) option" where
  "send c = (if closed c then Some (Inl SendOnClosedChannel)
             else if capacity c = 0 then None
             else Some (Inr ()))"

definition close_chan :: "chan \<Rightarrow> panic + chan" where
  "close_chan c = (if closed c then Inl CloseOfClosedChannel else Inr (c\<lparr>closed := True\<rparr>))"

text \<open>
  The loop \<open>for i := start; i <= end; i++\<close> over \<open>int32\<close>: \<open>i + 1\<close> wraps, so the loop
  may run for ever and is a partial function.  It collects the codepoints whose task it
  started.
\<close>

partial_function (option) dispatch ::
  "chan \<Rightarrow> rune \<Rightarrow> rune \<Rightarrow> rune list \<Rightarrow> (panic + rune list) option" where
  "dispatch c i end started =
    (if i <=s end then
       (case send c of
          None \<Rightarrow> None
        | Some (Inl p) \<Rightarrow> Some (Inl p)
        | Some (Inr u) \<Rightarrow> dispatch c (i + 1) end (started @ [i]))
     else Some (Inr started))"

text \<open>The body of one task: resolve the codepoint and store a positive result.\<close>

definition task :: "GlyphOutlineMapper \<Rightarrow> rune \<Rightarrow> table \<Rightarrow> panic + table" where
  "task g i results =
    (case MappingRune g i of
       Inl p \<Rightarrow> Inl p
     | Inr ((specialRune, standardRune, ok), log) \<Rightarrow>
         Inr (if ok then results(specialRune \<mapsto> standardRune) else results))"

fun run_tasks :: "GlyphOutlineMapper \<Rightarrow> rune list \<Rightarrow> table \<Rightarrow> panic + table" where
  "run_tasks g [] results = Inr results"
| "run_tasks g (i # is) results =
     (case task g i results of Inl p \<Rightarrow> Inl p | Inr results' \<Rightarrow> run_tasks g is results')"

text \<open>
  The tasks run concurrently; what the table depends on is the order in which they store
  their results.  That order is the parameter \<open>sched\<close>: it takes the codepoints in the
  order of dispatch and returns them in the order of completion.  Any scheduling of the
  goroutines is some permutation; the statements below ask of a schedule only that it
  keeps the set of started codepoints, which every permutation does.  After \<open>wg.Wait()\<close>
  the semaphore is closed and the accumulated table is returned together with the mapper
  as the call leaves it.
\<close>

definition Mapping ::
  "(rune list \<Rightarrow> rune list) \<Rightarrow> GlyphOutlineMapper \<Rightarrow> rune \<Rightarrow> rune
    \<Rightarrow> (panic + (table \<times> GlyphOutlineMapper)) option" where
  "Mapping sched g start end =
    (case dispatch (sem g) start end [] of
       None \<Rightarrow> None
     | Some (Inl p) \<Rightarrow> Some (Inl p)
     | Some (Inr started) \<Rightarrow>
        (case run_tasks g (sched started) Map.empty of
           Inl p \<Rightarrow> Some (Inl p)
         | Inr results \<Rightarrow>
            (case close_chan (sem g) of
               Inl p \<Rightarrow> Some (Inl p)
             | Inr c \<Rightarrow> Some (Inr (results, g\<lparr>sem := c\<rparr>)))))"

text \<open>\<open>make(chan struct{}, n)\<close> panics for a negative \<open>n\<close>.\<close>

definition SetConcurrent :: "GlyphOutlineMapper \<Rightarrow> int \<Rightarrow> panic + GlyphOutlineMapper" where
  "SetConcurrent g n =
    (if n < 0 then Inl MakeChanSizeOutOfRange
     else Inr (g\<lparr>concurrent := n, sem := \<lparr>capacity = n, closed = False\<rparr>\<rparr>))"

text \<open>
  \<open>truetype.Parse\<close> belongs to the font library and is the parameter \<open>parse\<close>.  A Go
  error is the text of its message; \<open>%w\<close> appends the message of the wrapped error.
\<close>

definition NewGlyphOutlineMapper ::
  "(8 word list \<Rightarrow> go_error + Font) \<Rightarrow> 8 word list \<Rightarrow> 8 word list
    \<Rightarrow> go_error + GlyphOutlineMapper" where
  "NewGlyphOutlineMapper parse specialFontData standardFontData =
    (case parse specialFontData of
       Inl err \<Rightarrow> Inl (''parse special font failed: '' @ err)
     | Inr specialFont' \<Rightarrow>
        (case parse standardFontData of
           Inl err \<Rightarrow> Inl (''parse standard font failed: '' @ err)
         | Inr standardFont' \<Rightarrow>
            Inr \<lparr>specialFont = Some specialFont', standardFont = Some standardFont',
                 concurrent = 10, sem = \<lparr>capacity = 10, closed = False\<rparr>\<rparr>))"

text \<open>What the task of a codepoint stores: the standard codepoint of a positive result.\<close>

definition found :: "GlyphOutlineMapper \<Rightarrow> rune \<Rightarrow> rune option" where
  "found g c =
    (case MappingRune g c of
       Inl p \<Rightarrow> None
     | Inr ((specialRune, standardRune, ok), calls) \<Rightarrow> if ok then Some standardRune else None)"

section \<open>Measuring outlines, and concrete fonts and outlines\<close>

text \<open>
  The distance of two coordinates as numbers, without wrap-around: what a statement about
  coordinates that differ by so many units refers to.
\<close>

definition delta :: "Int26_6 \<Rightarrow> Int26_6 \<Rightarrow> int" where
  "delta a b = \<bar>sint a - sint b\<bar>"

text \<open>
  Three outlines of one contour and two points: \<open>outline_a10\<close> is \<open>outline_a\<close> with every
  coordinate moved by 10 units, \<open>outline_a11\<close> is \<open>outline_a\<close> with one coordinate moved by
  11.  Two outlines of a single point at the two ends of the \<open>int32\<close> range.
\<close>

definition outline_a :: GlyphBuf where
  "outline_a = \<lparr>Points = [\<lparr>X = 100, Y = 200, Flags = 1\<rparr>, \<lparr>X = - 50, Y = 0, Flags = 0\<rparr>], Ends = [1]\<rparr>"

definition outline_a10 :: GlyphBuf where
  "outline_a10 = \<lparr>Points = [\<lparr>X = 110, Y = 190, Flags = 1\<rparr>, \<lparr>X = - 60, Y = 10, Flags = 0\<rparr>], Ends = [1]\<rparr>"

definition outline_a11 :: GlyphBuf where
  "outline_a11 = \<lparr>Points = [\<lparr>X = 100, Y = 200, Flags = 1\<rparr>, \<lparr>X = - 50, Y = 11, Flags = 0\<rparr>], Ends = [1]\<rparr>"

definition outline_east :: GlyphBuf where
  "outline_east = \<lparr>Points = [\<lparr>X = 2147483647, Y = 0, Flags = 1\<rparr>], Ends = [0]\<rparr>"

definition outline_west :: GlyphBuf where
  "outline_west = \<lparr>Points = [\<lparr>X = - 2147483647, Y = 0, Flags = 1\<rparr>], Ends = [0]\<rparr>"

text \<open>
  Three fonts over an empty and a non-empty bounding box: \<open>font_blank\<close> maps U+E000 to a
  glyph without extent or advance, \<open>font_spaced\<close> to a glyph without extent but with an
  advance, \<open>font_unmapped\<close> maps no codepoint but answers every bounds query.
\<close>

definition rect_empty :: Rectangle26_6 where
  "rect_empty = \<lparr>Min_pt = \<lparr>PX = 0, PY = 0\<rparr>, Max_pt = \<lparr>PX = 0, PY = 0\<rparr>\<rparr>"

definition rect_box :: Rectangle26_6 where
  "rect_box = \<lparr>Min_pt = \<lparr>PX = 0, PY = - 640\<rparr>, Max_pt = \<lparr>PX = 512, PY = 0\<rparr>\<rparr>"

definition font_blank :: Font where
  "font_blank =
    \<lparr>Index = (\<lambda>r. if r = 0xE000 then 7 else 0),
     GlyphBounds = (\<lambda>size r. (rect_empty, 0, True)),
     Load = (\<lambda>scale i h. Inl ''no outline'')\<rparr>"

definition font_unmapped :: Font where
  "font_unmapped =
    \<lparr>Index = (\<lambda>r. 0),
     GlyphBounds = (\<lambda>size r. (rect_box, 768, True)),
     Load = (\<lambda>scale i h. Inl ''no outline'')\<rparr>"

definition font_spaced :: Font where
  "font_spaced =
    \<lparr>Index = (\<lambda>r. if r = 0xE000 then 7 else 0),
     GlyphBounds = (\<lambda>size r. (rect_empty, 768, True)),
     Load = (\<lambda>scale i h. Inl ''no outline'')\<rparr>"

text \<open>
  A special font with one glyph, at U+E000, whose outline is \<open>outline_a\<close>, and a standard
  font with three: U+4E00 with \<open>outline_a11\<close>, U+4E01 whose outline does not load, U+4E02
  with \<open>outline_a10\<close>.  \<open>parse_demo\<close> reads the two fonts from one-byte buffers and
  rejects every other buffer; \<open>mapper_demo\<close> is the mapper the constructor builds from
  them.
\<close>

definition font_special :: Font where
  "font_special =
    \<lparr>Index = (\<lambda>r. if r = 0xE000 then 3 else 0),
     GlyphBounds = (\<lambda>size r. (rect_box, 768, True)),
     Load = (\<lambda>scale i h.
       if scale = 64000 \<and> h = HintingNone \<and> i = 3 then Inr outline_a else Inl ''no outline'')\<rparr>"

definition font_standard :: Font where
  "font_standard =
    \<lparr>Index = (\<lambda>r. if r = 0x4E00 then 1 else if r = 0x4E01 then 2 else if r = 0x4E02 then 3 else 0),
     GlyphBounds = (\<lambda>size r. (rect_box, 768, True)),
     Load = (\<lambda>scale i h.
       if scale = 64000 \<and> h = HintingNone \<and> i = 1 then Inr outline_a11
       else if scale = 64000 \<and> h = HintingNone \<and> i = 3 then Inr outline_a10
       else Inl ''no outline'')\<rparr>"

definition parse_demo :: "8 word list \<Rightarrow> go_error + Font" where
  "parse_demo bytes =
    (if bytes = [1] then Inr font_special
     else if bytes = [2] then Inr font_standard
     else Inl ''bad sfnt version'')"

definition mapper_demo :: GlyphOutlineMapper where
  "mapper_demo =
    \<lparr>specialFont = Some font_special, standardFont = Some font_standard,
     concurrent = 10, sem = \<lparr>capacity = 10, closed = False\<rparr>\<rparr>"

section \<open>The comparator\<close>

lemma sint_range32: "- 2147483648 \<le> sint (a :: 32 word) \<and> sint a < 2147483648"
  using sint_ge [of a] sint_lt [of a] by simp

lemma sint_minus32:
  "- 2147483648 \<le> sint a - sint b \<Longrightarrow> sint a - sint b < 2147483648
    \<Longrightarrow> sint (a - b :: 32 word) = sint a - sint b"
  by (simp add: sint_word_ariths signed_take_bit_int_eq_self)

lemma sint_uminus32:
  assumes "sint (d :: 32 word) \<noteq> - 2147483648"
  shows "sint (- d) = - sint d"
proof -
  have "sint (0 - d) = sint (0 :: 32 word) - sint d"
    using assms sint_range32 [of d] by (intro sint_minus32) simp_all
  then show ?thesis by simp
qed

lemma sint_abs_diff:
  assumes "delta a b < 2147483648"
  shows "sint (abs_diff a b) = delta a b"
proof -
  have d: "sint (a - b) = sint a - sint b"
    using assms by (intro sint_minus32) (simp_all add: delta_def)
  show ?thesis
  proof (cases "a - b <s 0")
    case True
    then have neg: "sint a - sint b < 0" using d by (simp add: word_sless_alt)
    have "sint (a - b) \<noteq> - 2147483648" using assms d by (simp add: delta_def)
    then have "sint (- (a - b)) = - sint (a - b)" by (rule sint_uminus32)
    moreover have "abs_diff a b = - (a - b)" using True by (simp add: abs_diff_def)
    ultimately have "sint (abs_diff a b) = - (sint a - sint b)" using d by (simp only:)
    with neg show ?thesis by (simp add: delta_def)
  next
    case False
    then have "0 \<le> sint a - sint b" using d by (simp add: word_sless_alt)
    with False d show ?thesis by (simp add: abs_diff_def delta_def)
  qed
qed

lemma over_tolerance_iff:
  assumes "delta a b < 2147483648"
  shows "tolerance <s abs_diff a b \<longleftrightarrow> 10 < delta a b"
  using sint_abs_diff [OF assms] by (simp add: word_sless_alt tolerance_def)

lemma abs_diff_self: "abs_diff a a = 0"
  by (simp add: abs_diff_def)

lemma ends_loop_refl: "ends_loop xs xs"
  by (induction xs) simp_all

lemma points_loop_refl: "points_loop ps ps"
  by (induction ps) (simp_all add: abs_diff_self tolerance_def word_sless_alt)

lemma points_loop_within:
  "length ps = length qs \<Longrightarrow>
   \<forall>i < length ps. delta (X (ps ! i)) (X (qs ! i)) \<le> 10 \<and> delta (Y (ps ! i)) (Y (qs ! i)) \<le> 10
   \<Longrightarrow> points_loop ps qs"
proof (induction ps qs rule: list_induct2)
  case Nil
  then show ?case by simp
next
  case (Cons p ps q qs)
  from Cons.prems have hd: "delta (X p) (X q) \<le> 10" "delta (Y p) (Y q) \<le> 10"
    by auto
  from Cons.prems have tl: "\<forall>i < length ps. delta (X (ps ! i)) (X (qs ! i)) \<le> 10 \<and> delta (Y (ps ! i)) (Y (qs ! i)) \<le> 10"
    by fastforce
  have "\<not> tolerance <s abs_diff (X p) (X q)" "\<not> tolerance <s abs_diff (Y p) (Y q)"
    using hd by (simp_all add: over_tolerance_iff)
  with Cons.IH [OF tl] show ?case by simp
qed

lemma points_loop_beyond:
  "length ps = length qs \<Longrightarrow> i < length ps \<Longrightarrow>
   (11 \<le> delta (X (ps ! i)) (X (qs ! i)) \<and> delta (X (ps ! i)) (X (qs ! i)) < 2147483648) \<or>
   (11 \<le> delta (Y (ps ! i)) (Y (qs ! i)) \<and> delta (Y (ps ! i)) (Y (qs ! i)) < 2147483648)
   \<Longrightarrow> \<not> points_loop ps qs"
proof (induction ps qs arbitrary: i rule: list_induct2)
  case Nil
  then show ?case by simp
next
  case (Cons p ps q qs)
  show ?case
  proof (cases i)
    case 0
    with Cons.prems have
      "(11 \<le> delta (X p) (X q) \<and> delta (X p) (X q) < 2147483648) \<or>
       (11 \<le> delta (Y p) (Y q) \<and> delta (Y p) (Y q) < 2147483648)"
      by simp
    then have "tolerance <s abs_diff (X p) (X q) \<or> tolerance <s abs_diff (Y p) (Y q)"
      by (auto simp: over_tolerance_iff)
    then show ?thesis by auto
  next
    case (Suc k)
    with Cons.prems have "\<not> points_loop ps qs"
      by (intro Cons.IH [of k]) simp_all
    then show ?thesis by simp
  qed
qed

section \<open>The existence tester\<close>

lemma index_pos: "(i :: glyph_index) \<noteq> 0 \<Longrightarrow> 0 < i"
  by (simp add: word_neq_0_conv)

lemma hasGlyph_font: "hasGlyph font c \<Longrightarrow> \<exists>f. font = Some f"
  by (cases font) (simp_all add: hasGlyph_def)

section \<open>The resolver\<close>

lemma GlyphOutlineEqual_returns:
  assumes "specialFont g = Some f1" and "standardFont g = Some f2"
  shows "\<exists>b calls. GlyphOutlineEqual g c s = Inr (b, calls)"
  using assms by (auto simp: GlyphOutlineEqual_def Let_def split: sum.split)

lemma GlyphOutlineEqual_load_failure:
  assumes "specialFont g = Some f1" and "standardFont g = Some f2"
    and "Load f1 (fixed_I 1000) (Index f1 c) HintingNone = Inl err \<or>
         Load f2 (fixed_I 1000) (Index f2 s) HintingNone = Inl err"
  shows "GlyphOutlineEqual g c s = Inr (False, [CallGlyphOutlineEqual c s])"
  using assms by (auto simp: GlyphOutlineEqual_def Let_def split: sum.splits)

lemma GlyphOutlineEqual_fonts:
  "specialFont g1 = specialFont g2 \<Longrightarrow> standardFont g1 = standardFont g2 \<Longrightarrow>
   GlyphOutlineEqual g1 c s = GlyphOutlineEqual g2 c s"
  by (simp add: GlyphOutlineEqual_def cong: option.case_cong)

lemma scan_returns:
  "specialFont g = Some f1 \<Longrightarrow> \<exists>r. scan g c j ok log = Inr r"
proof (induction g c j ok log rule: scan.induct)
  case (1 g unicode j ok log)
  show ?case
  proof (cases "j \<le> 0x9fff")
    case False
    then show ?thesis by (subst scan.simps) simp
  next
    case inside: True
    show ?thesis
    proof (cases "hasGlyph (standardFont g) (word_of_int j)")
      case False
      with inside "1.IH"(1) "1.prems" show ?thesis by (subst scan.simps) simp
    next
      case True
      then obtain f2 where "standardFont g = Some f2" using hasGlyph_font by blast
      with "1.prems" obtain b calls
        where eq: "GlyphOutlineEqual g unicode (word_of_int j) = Inr (b, calls)"
        using GlyphOutlineEqual_returns by blast
      show ?thesis
      proof (cases b)
        case True
        with inside \<open>hasGlyph (standardFont g) (word_of_int j)\<close> eq show ?thesis
          by (subst scan.simps) auto
      next
        case False
        with inside \<open>hasGlyph (standardFont g) (word_of_int j)\<close> eq "1.IH"(2) [OF inside _ eq refl] "1.prems"
        show ?thesis by (subst scan.simps) simp
      qed
    qed
  qed
qed

lemma MappingRune_returns: "\<exists>r. MappingRune g c = Inr r"
proof (cases "hasGlyph (specialFont g) c")
  case False
  then show ?thesis by (auto simp: MappingRune_def)
next
  case True
  then obtain f1 where "specialFont g = Some f1" using hasGlyph_font by blast
  then show ?thesis using True scan_returns by (simp add: MappingRune_def)
qed

lemma scan_result:
  assumes "scan g c j ok log = Inr ((sp, st, b), log')" and "j \<le> 0x9fff \<or> \<not> ok"
  shows "if b
    then sp = c \<and>
      (\<exists>k. j \<le> k \<and> k \<le> 0x9fff \<and> st = word_of_int k \<and>
         hasGlyph (standardFont g) (word_of_int k) \<and> outlines_equal g c (word_of_int k) \<and>
         (\<forall>i. j \<le> i \<and> i < k \<longrightarrow>
            \<not> (hasGlyph (standardFont g) (word_of_int i) \<and> outlines_equal g c (word_of_int i))))
    else sp = 0 \<and> st = 0 \<and>
      (\<forall>i. j \<le> i \<and> i \<le> 0x9fff \<longrightarrow>
         \<not> (hasGlyph (standardFont g) (word_of_int i) \<and> outlines_equal g c (word_of_int i)))"
  using assms
proof (induction g c j ok log rule: scan.induct)
  case (1 g unicode j ok log)
  let ?cand = "\<lambda>i. hasGlyph (standardFont g) (word_of_int i) \<and> outlines_equal g unicode (word_of_int i)"
  show ?case
  proof (cases "j \<le> 0x9fff")
    case False
    with "1.prems" show ?thesis by (subst (asm) scan.simps) auto
  next
    case inside: True
    show ?thesis
    proof (cases "hasGlyph (standardFont g) (word_of_int j)")
      case False
      with inside "1.prems"(1)
      have next_: "scan g unicode (j + 1) False (log @ [CallHasGlyph Standard (word_of_int j)])
              = Inr ((sp, st, b), log')"
        by (subst (asm) scan.simps) simp
      have nc: "\<not> ?cand j" using False by simp
      from "1.IH"(1) [OF inside False next_]
      have ih: "if b
        then sp = unicode \<and>
          (\<exists>k. j + 1 \<le> k \<and> k \<le> 0x9fff \<and> st = word_of_int k \<and> ?cand k \<and>
             (\<forall>i. j + 1 \<le> i \<and> i < k \<longrightarrow> \<not> ?cand i))
        else sp = 0 \<and> st = 0 \<and> (\<forall>i. j + 1 \<le> i \<and> i \<le> 0x9fff \<longrightarrow> \<not> ?cand i)"
        by (cases b) simp_all
      show ?thesis
      proof (cases b)
        case True
        with ih obtain k where k: "j + 1 \<le> k" "k \<le> 0x9fff" "st = word_of_int k" "?cand k"
          "\<forall>i. j + 1 \<le> i \<and> i < k \<longrightarrow> \<not> ?cand i" and sp: "sp = unicode"
          by auto
        have "\<forall>i. j \<le> i \<and> i < k \<longrightarrow> \<not> ?cand i"
        proof (intro allI impI)
          fix i assume "j \<le> i \<and> i < k"
          then have "i = j \<or> (j + 1 \<le> i \<and> i < k)" by arith
          then show "\<not> ?cand i" using nc k(5) by blast
        qed
        with k sp True show ?thesis by (auto intro!: exI [of _ k])
      next
        case False
        with ih have rest: "sp = 0" "st = 0" "\<forall>i. j + 1 \<le> i \<and> i \<le> 0x9fff \<longrightarrow> \<not> ?cand i"
          by auto
        have "\<forall>i. j \<le> i \<and> i \<le> 0x9fff \<longrightarrow> \<not> ?cand i"
        proof (intro allI impI)
          fix i assume "j \<le> i \<and> i \<le> 0x9fff"
          then have "i = j \<or> (j + 1 \<le> i \<and> i \<le> 0x9fff)" by arith
          then show "\<not> ?cand i" using nc rest(3) by blast
        qed
        with rest False show ?thesis by simp
      qed
    next
      case has: True
      show ?thesis
      proof (cases "GlyphOutlineEqual g unicode (word_of_int j)")
        case (Inl p)
        with inside has "1.prems"(1) show ?thesis by (subst (asm) scan.simps) simp
      next
        case (Inr r)
        obtain ok' calls where r: "r = (ok', calls)" by (cases r)
        show ?thesis
        proof (cases ok')
          case True
          with inside has Inr r "1.prems"(1)
          have "sp = unicode \<and> st = word_of_int j \<and> b"
            by (subst (asm) scan.simps) auto
          then have res: "sp = unicode" "st = word_of_int j" "b" by simp_all
          have "?cand j" using has Inr r True by (simp add: outlines_equal_def)
          with res inside show ?thesis by (auto intro!: exI [of _ j])
        next
          case False
          with inside has Inr r "1.prems"(1)
          have next_: "scan g unicode (j + 1) ok'
                (log @ CallHasGlyph Standard (word_of_int j) # calls) = Inr ((sp, st, b), log')"
            by (subst (asm) scan.simps) simp
          have nc: "\<not> ?cand j" using Inr r False by (simp add: outlines_equal_def)
          from "1.IH"(2) [OF inside _ Inr r [symmetric] _ next_] has False
          have ih: "if b
            then sp = unicode \<and>
              (\<exists>k. j + 1 \<le> k \<and> k \<le> 0x9fff \<and> st = word_of_int k \<and> ?cand k \<and>
                 (\<forall>i. j + 1 \<le> i \<and> i < k \<longrightarrow> \<not> ?cand i))
            else sp = 0 \<and> st = 0 \<and> (\<forall>i. j + 1 \<le> i \<and> i \<le> 0x9fff \<longrightarrow> \<not> ?cand i)"
            by (cases b) simp_all
          show ?thesis
          proof (cases b)
            case True
            with ih obtain k where k: "j + 1 \<le> k" "k \<le> 0x9fff" "st = word_of_int k" "?cand k"
              "\<forall>i. j + 1 \<le> i \<and> i < k \<longrightarrow> \<not> ?cand i" and sp: "sp = unicode"
              by auto
            have "\<forall>i. j \<le> i \<and> i < k \<longrightarrow> \<not> ?cand i"
            proof (intro allI impI)
              fix i assume "j \<le> i \<and> i < k"
              then have "i = j \<or> (j + 1 \<le> i \<and> i < k)" by arith
              then show "\<not> ?cand i" using nc k(5) by blast
            qed
            with k sp True show ?thesis by (auto intro!: exI [of _ k])
          next
            case False
            with ih have rest: "sp = 0" "st = 0" "\<forall>i. j + 1 \<le> i \<and> i \<le> 0x9fff \<longrightarrow> \<not> ?cand i"
              by auto
            have "\<forall>i. j \<le> i \<and> i \<le> 0x9fff \<longrightarrow> \<not> ?cand i"
            proof (intro allI impI)
              fix i assume "j \<le> i \<and> i \<le> 0x9fff"
              then have "i = j \<or> (j + 1 \<le> i \<and> i \<le> 0x9fff)" by arith
              then show "\<not> ?cand i" using nc rest(3) by blast
            qed
            with rest False show ?thesis by simp
          qed
        qed
      qed
    qed
  qed
qed

lemma scan_fonts:
  assumes "specialFont g1 = specialFont g2" and "standardFont g1 = standardFont g2"
  shows "scan g1 c j ok log = scan g2 c j ok log"
  using assms
proof (induction g1 c j ok log rule: scan.induct)
  case (1 g unicode j ok log)
  note unfold = scan.simps [of g unicode j ok log] scan.simps [of g2 unicode j ok log]
  have eq: "GlyphOutlineEqual g unicode (word_of_int j) = GlyphOutlineEqual g2 unicode (word_of_int j)"
    using "1.prems" by (rule GlyphOutlineEqual_fonts)
  show ?case
  proof (cases "j \<le> 0x9fff")
    case False
    then show ?thesis using unfold by simp
  next
    case inside: True
    show ?thesis
    proof (cases "hasGlyph (standardFont g) (word_of_int j)")
      case False
      from "1.IH"(1) [OF inside False "1.prems"] inside False "1.prems"(2) show ?thesis
        using unfold by simp
    next
      case has: True
      show ?thesis
      proof (cases "GlyphOutlineEqual g unicode (word_of_int j)")
        case (Inl p)
        then have "GlyphOutlineEqual g2 unicode (word_of_int j) = Inl p" using eq by simp
        with Inl inside has "1.prems"(2) show ?thesis using unfold by simp
      next
        case (Inr r)
        obtain ok' calls where r: "r = (ok', calls)" by (cases r)
        have eq2: "GlyphOutlineEqual g2 unicode (word_of_int j) = Inr (ok', calls)"
          using eq Inr r by simp
        have eq1: "GlyphOutlineEqual g unicode (word_of_int j) = Inr (ok', calls)"
          using Inr r by simp
        show ?thesis
        proof (cases ok')
          case True
          with inside has eq1 eq2 "1.prems"(2) show ?thesis using unfold by simp
        next
          case False
          have "scan g unicode (j + 1) ok' (log @ CallHasGlyph Standard (word_of_int j) # calls)
              = scan g2 unicode (j + 1) ok' (log @ CallHasGlyph Standard (word_of_int j) # calls)"
            using "1.IH"(2) [OF inside _ Inr r [symmetric] _ "1.prems"] has False by simp
          with inside has eq1 eq2 False "1.prems"(2) show ?thesis using unfold by simp
        qed
      qed
    qed
  qed
qed

lemma MappingRune_fonts:
  assumes "specialFont g1 = specialFont g2" and "standardFont g1 = standardFont g2"
  shows "MappingRune g1 c = MappingRune g2 c"
  by (simp add: MappingRune_def Let_def assms(1) scan_fonts [OF assms] cong: if_cong)

lemma sint_candidate: "0x4e00 \<le> k \<Longrightarrow> k \<le> 0x9fff \<Longrightarrow> sint (word_of_int k :: rune) = k"
  by (simp add: sint_sbintrunc' signed_take_bit_int_eq_self)

lemma MappingRune_result:
  assumes "MappingRune g c = Inr ((sp, st, b), calls)"
  shows "if b
    then sp = c \<and>
      (\<exists>k. 0x4e00 \<le> k \<and> k \<le> 0x9fff \<and> st = word_of_int k \<and>
         hasGlyph (standardFont g) (word_of_int k) \<and> outlines_equal g c (word_of_int k) \<and>
         (\<forall>i. 0x4e00 \<le> i \<and> i < k \<longrightarrow>
            \<not> (hasGlyph (standardFont g) (word_of_int i) \<and> outlines_equal g c (word_of_int i))))
    else sp = 0 \<and> st = 0"
proof (cases "hasGlyph (specialFont g) c")
  case False
  with assms show ?thesis by (simp add: MappingRune_def)
next
  case True
  with assms have "scan g c 0x4e00 True [CallHasGlyph Special c] = Inr ((sp, st, b), calls)"
    by (simp add: MappingRune_def)
  from scan_result [OF this] show ?thesis by (cases b) simp_all
qed

lemma MappingRune_found:
  assumes "MappingRune g c = Inr ((sp, st, True), calls)"
  shows "sp = c" and "0x4E00 <=s st" and "st <=s 0x9FFF"
    and "hasGlyph (standardFont g) st" and "outlines_equal g c st"
    and "0x4E00 <=s s \<Longrightarrow> s <s st \<Longrightarrow> \<not> (hasGlyph (standardFont g) s \<and> outlines_equal g c s)"
proof -
  from MappingRune_result [OF assms] obtain k where k: "0x4e00 \<le> k" "k \<le> 0x9fff"
    "st = word_of_int k" "hasGlyph (standardFont g) (word_of_int k)"
    "outlines_equal g c (word_of_int k)"
    "\<forall>i. 0x4e00 \<le> i \<and> i < k \<longrightarrow>
       \<not> (hasGlyph (standardFont g) (word_of_int i) \<and> outlines_equal g c (word_of_int i))"
    and sp: "sp = c"
    by auto
  have sk: "sint st = k" using k(1-3) by (simp add: sint_candidate)
  show "sp = c" by (rule sp)
  show "0x4E00 <=s st" using k(1) sk by (simp add: word_sle_eq)
  show "st <=s 0x9FFF" using k(2) sk by (simp add: word_sle_eq)
  show "hasGlyph (standardFont g) st" using k(3,4) by simp
  show "outlines_equal g c st" using k(3,5) by simp
  show "\<not> (hasGlyph (standardFont g) s \<and> outlines_equal g c s)"
    if "0x4E00 <=s s" and "s <s st"
  proof -
    from that sk have "0x4e00 \<le> sint s \<and> sint s < k"
      by (simp add: word_sle_eq word_sless_alt)
    with k(6) have "\<not> (hasGlyph (standardFont g) (word_of_int (sint s)) \<and>
        outlines_equal g c (word_of_int (sint s)))"
      by blast
    then show ?thesis by simp
  qed
qed

lemma MappingRune_complete:
  assumes sp: "hasGlyph (specialFont g) c"
    and rng: "0x4E00 <=s s" "s <=s 0x9FFF"
    and cand: "hasGlyph (standardFont g) s" "outlines_equal g c s"
  shows "\<exists>st calls. MappingRune g c = Inr ((c, st, True), calls) \<and> st <=s s"
proof -
  obtain sp' st b calls where m: "MappingRune g c = Inr ((sp', st, b), calls)"
    using MappingRune_returns [of g c] by (metis prod_cases3 surj_pair)
  with sp have sc: "scan g c 0x4e00 True [CallHasGlyph Special c] = Inr ((sp', st, b), calls)"
    by (simp add: MappingRune_def)
  have b
  proof (rule ccontr)
    assume "\<not> b"
    with scan_result [OF sc] have none: "\<forall>i. 0x4e00 \<le> i \<and> i \<le> 0x9fff \<longrightarrow>
        \<not> (hasGlyph (standardFont g) (word_of_int i) \<and> outlines_equal g c (word_of_int i))"
      by simp
    from rng have "0x4e00 \<le> sint s \<and> sint s \<le> 0x9fff" by (simp add: word_sle_eq)
    with none have "\<not> (hasGlyph (standardFont g) (word_of_int (sint s)) \<and>
        outlines_equal g c (word_of_int (sint s)))"
      by blast
    with cand show False by simp
  qed
  with m have m': "MappingRune g c = Inr ((sp', st, True), calls)" by simp
  from MappingRune_found(1) [OF m'] have "sp' = c" .
  moreover have "st <=s s"
  proof (rule ccontr)
    assume "\<not> st <=s s"
    then have "s <s st" by (simp add: word_sle_eq word_sless_alt)
    from MappingRune_found(6) [OF m' rng(1) this] cand show False by simp
  qed
  ultimately show ?thesis using m' by blast
qed

lemma found_Some:
  "found g c = Some st \<longleftrightarrow> (\<exists>calls. MappingRune g c = Inr ((c, st, True), calls))"
proof
  assume "found g c = Some st"
  then obtain sp calls where m: "MappingRune g c = Inr ((sp, st, True), calls)"
    by (auto simp: found_def split: sum.splits if_splits)
  from MappingRune_found(1) [OF m] m show "\<exists>calls. MappingRune g c = Inr ((c, st, True), calls)"
    by auto
next
  assume "\<exists>calls. MappingRune g c = Inr ((c, st, True), calls)"
  then show "found g c = Some st" by (auto simp: found_def)
qed

lemma found_range: "found g c = Some st \<Longrightarrow> 0x4E00 <=s st \<and> st <=s 0x9FFF"
  using MappingRune_found(2,3) by (auto simp: found_Some)

lemma found_fonts:
  assumes "specialFont g1 = specialFont g2" and "standardFont g1 = standardFont g2"
  shows "found g1 c = found g2 c"
  by (simp add: found_def MappingRune_fonts [OF assms])

section \<open>The batch driver\<close>

lemma sint_inj32: "sint (a :: rune) = sint b \<Longrightarrow> a = b"
  by (rule signed_word_eqI)

lemma sint_succ: "sint (i :: rune) < 2147483647 \<Longrightarrow> sint (i + 1) = sint i + 1"
  using sint_range32 [of i]
  by (simp add: sint_word_ariths signed_take_bit_int_eq_self)

lemma sle_max: "(i :: rune) <=s 2147483647"
  using sint_range32 [of i] by (simp add: word_sle_eq)

lemma send_open: "\<not> closed c \<Longrightarrow> capacity c \<noteq> 0 \<Longrightarrow> send c = Some (Inr ())"
  by (simp add: send_def)

lemma dispatch_closed:
  "closed c \<Longrightarrow> dispatch c i e acc = Some (if i <=s e then Inl SendOnClosedChannel else Inr acc)"
  by (subst dispatch.simps) (simp add: send_def)

lemma dispatch_open:
  assumes "\<not> closed c" and "capacity c \<noteq> 0" and "sint e < 2147483647"
  shows "\<exists>started. dispatch c i e acc = Some (Inr started) \<and>
           set started = set acc \<union> {k. i <=s k \<and> k <=s e}"
proof (induction "nat (sint e + 1 - sint i)" arbitrary: i acc)
  case 0
  then have "\<not> i <=s e" by (simp add: word_sle_eq)
  then have "dispatch c i e acc = Some (Inr acc)" by (subst dispatch.simps) simp
  moreover have "{k. i <=s k \<and> k <=s e} = {}"
    using \<open>\<not> i <=s e\<close> by (auto simp: word_sle_eq)
  then have "set acc = set acc \<union> {k. i <=s k \<and> k <=s e}"
    by (simp only: Un_empty_right)
  ultimately show ?case by blast
next
  case (Suc n)
  then have le: "i <=s e" by (simp add: word_sle_eq)
  then have lt: "sint i < 2147483647" using assms(3) by (simp add: word_sle_eq)
  have step: "dispatch c i e acc = dispatch c (i + 1) e (acc @ [i])"
    using le assms by (subst dispatch.simps) (simp add: send_open)
  have "n = nat (sint e + 1 - sint (i + 1))"
    using Suc.hyps(2) by (simp add: sint_succ [OF lt])
  from Suc.hyps(1) [OF this, of "acc @ [i]"] obtain started
    where st: "dispatch c (i + 1) e (acc @ [i]) = Some (Inr started)"
      "set started = set (acc @ [i]) \<union> {k. i + 1 <=s k \<and> k <=s e}"
    by blast
  have "{k. i <=s k \<and> k <=s e} = insert i {k. i + 1 <=s k \<and> k <=s e}"
  proof -
    have "\<And>k. k \<noteq> i \<Longrightarrow> sint i \<noteq> sint k"
      using sint_inj32 by blast
    then have "\<And>k. sint i \<le> sint k \<longleftrightarrow> k = i \<or> sint i + 1 \<le> sint k"
      by (auto simp: order_le_less)
    then show ?thesis using le by (auto simp: word_sle_eq sint_succ [OF lt])
  qed
  with st step show ?case by simp
qed

lemma dispatch_never_returns:
  assumes "\<not> closed c" and "capacity c \<noteq> 0"
  shows "dispatch c i 2147483647 acc = None"
proof -
  have "\<not> closed c \<longrightarrow> capacity c \<noteq> 0 \<longrightarrow> (2147483647 :: rune) = 2147483647 \<longrightarrow> False"
    if ret: "dispatch c i 2147483647 acc = Some r" for r
  proof (rule dispatch.raw_induct
      [where P = "\<lambda>c i e acc r. \<not> closed c \<longrightarrow> capacity c \<noteq> 0 \<longrightarrow> e = 2147483647 \<longrightarrow> False",
        OF _ ret])
    fix dispatch' :: "chan \<Rightarrow> rune \<Rightarrow> rune \<Rightarrow> rune list \<Rightarrow> (panic + rune list) option"
      and c i e acc r
    assume ih: "\<And>c i e acc y. dispatch' c i e acc = Some y \<Longrightarrow>
        \<not> closed c \<longrightarrow> capacity c \<noteq> 0 \<longrightarrow> e = 2147483647 \<longrightarrow> False"
      and body: "(if i <=s e
          then case send c of None \<Rightarrow> None | Some (Inl p) \<Rightarrow> Some (Inl p)
            | Some (Inr u) \<Rightarrow> dispatch' c (i + 1) e (acc @ [i])
          else Some (Inr acc)) = Some r"
    show "\<not> closed c \<longrightarrow> capacity c \<noteq> 0 \<longrightarrow> e = 2147483647 \<longrightarrow> False"
    proof (intro impI)
      assume op: "\<not> closed c" "capacity c \<noteq> 0" and e: "e = 2147483647"
      have "i <=s e" unfolding e by (rule sle_max)
      with body have "dispatch' c (i + 1) e (acc @ [i]) = Some r"
        by (simp add: send_open [OF op])
      from ih [OF this] op e show False by simp
    qed
  qed
  with assms show ?thesis by (cases "dispatch c i 2147483647 acc") auto
qed

lemma dispatch_no_panic:
  assumes "\<not> closed c"
  shows "dispatch c i e acc \<noteq> Some (Inl p)"
proof
  assume ret: "dispatch c i e acc = Some (Inl p)"
  have "\<not> closed c \<longrightarrow> (\<forall>q. (Inl p :: panic + rune list) \<noteq> Inl q)"
  proof (rule dispatch.raw_induct
      [where P = "\<lambda>c i e acc r. \<not> closed c \<longrightarrow> (\<forall>q. r \<noteq> Inl q)", OF _ ret])
    fix dispatch' :: "chan \<Rightarrow> rune \<Rightarrow> rune \<Rightarrow> rune list \<Rightarrow> (panic + rune list) option"
      and c i e acc r
    assume ih: "\<And>c i e acc y. dispatch' c i e acc = Some y \<Longrightarrow>
        \<not> closed c \<longrightarrow> (\<forall>q. y \<noteq> Inl q)"
      and body: "(if i <=s e
          then case send c of None \<Rightarrow> None | Some (Inl p) \<Rightarrow> Some (Inl p)
            | Some (Inr u) \<Rightarrow> dispatch' c (i + 1) e (acc @ [i])
          else Some (Inr acc)) = Some r"
    show "\<not> closed c \<longrightarrow> (\<forall>q. r \<noteq> Inl q)"
    proof
      assume op: "\<not> closed c"
      show "\<forall>q. r \<noteq> Inl q"
      proof (cases "i <=s e")
        case False
        with body show ?thesis by auto
      next
        case True
        show ?thesis
        proof (cases "capacity c = 0")
          case True
          with \<open>i <=s e\<close> op body show ?thesis by (simp add: send_def)
        next
          case False
          with True op body have "dispatch' c (i + 1) e (acc @ [i]) = Some r"
            by (simp add: send_def)
          from ih [OF this] op show ?thesis by simp
        qed
      qed
    qed
  qed
  with assms show False by simp
qed

lemma dispatch_started:
  assumes "dispatch c i e acc = Some (Inr started)"
  shows "set started = set acc \<union> {k. i <=s k \<and> k <=s e}"
proof (cases "i <=s e")
  case False
  then have "{k. i <=s k \<and> k <=s e} = {}" by (auto simp: word_sle_eq)
  moreover from False assms have "started = acc" by (subst (asm) dispatch.simps) simp
  ultimately show ?thesis by (simp only: Un_empty_right)
next
  case True
  from assms True have "send c \<noteq> None \<and> (\<forall>p. send c \<noteq> Some (Inl p))"
    by (subst (asm) dispatch.simps) (auto split: option.splits sum.splits)
  then have op: "\<not> closed c" "capacity c \<noteq> 0"
    by (auto simp: send_def split: if_splits)
  have "sint e < 2147483647"
  proof (rule ccontr)
    assume "\<not> sint e < 2147483647"
    then have "sint e = sint (2147483647 :: rune)" using sint_range32 [of e] by simp
    then have "e = 2147483647" by (rule sint_inj32)
    with assms dispatch_never_returns [OF op] show False by simp
  qed
  from dispatch_open [OF op this, of i acc] assms show ?thesis by auto
qed

lemma task_found:
  "task g i t = Inr (case found g i of None \<Rightarrow> t | Some st \<Rightarrow> t(i \<mapsto> st))"
proof -
  obtain sp st b calls where m: "MappingRune g i = Inr ((sp, st, b), calls)"
    using MappingRune_returns [of g i] by (metis prod_cases3 surj_pair)
  show ?thesis
  proof (cases b)
    case True
    with m MappingRune_found(1) [of g i sp st calls] have "sp = i" by simp
    with m True show ?thesis by (simp add: task_def found_def)
  next
    case False
    with m show ?thesis by (simp add: task_def found_def)
  qed
qed

lemma run_tasks_found:
  "run_tasks g xs t =
    Inr (\<lambda>k. if k \<in> set xs then (case found g k of None \<Rightarrow> t k | Some st \<Rightarrow> Some st) else t k)"
proof (induction xs arbitrary: t)
  case Nil
  show ?case by simp
next
  case (Cons x xs)
  show ?case
    by (simp add: task_found Cons.IH) (auto simp: fun_eq_iff split: option.splits)
qed

lemma run_tasks_order:
  "set xs = set ys \<Longrightarrow> run_tasks g xs t = run_tasks g ys t"
  by (simp add: run_tasks_found)

lemma Mapping_order:
  assumes "\<forall>xs. set (sched1 xs) = set xs" and "\<forall>xs. set (sched2 xs) = set xs"
  shows "Mapping sched1 g start end = Mapping sched2 g start end"
proof -
  have "run_tasks g (sched1 xs) t = run_tasks g (sched2 xs) t" for xs t
    using assms by (intro run_tasks_order) simp
  then show ?thesis by (simp add: Mapping_def cong: option.case_cong sum.case_cong)
qed

lemma Mapping_closed:
  assumes "closed (sem g)"
  shows "Mapping sched g start end =
    Some (Inl (if start <=s end then SendOnClosedChannel else CloseOfClosedChannel))"
  using assms by (simp add: Mapping_def dispatch_closed run_tasks_found close_chan_def)

lemma Mapping_open:
  assumes "\<not> closed (sem g)" and "capacity (sem g) \<noteq> 0" and "sint end < 2147483647"
  shows "\<exists>t. Mapping sched g start end = Some (Inr (t, g\<lparr>sem := (sem g)\<lparr>closed := True\<rparr>\<rparr>))"
proof -
  from dispatch_open [OF assms, of start "[]"] obtain started
    where "dispatch (sem g) start end [] = Some (Inr started)" by blast
  with assms(1) show ?thesis
    by (simp add: Mapping_def run_tasks_found close_chan_def)
qed

lemma Mapping_panic:
  assumes "Mapping sched g start end = Some (Inl p)"
  shows "closed (sem g) \<and> p = (if start <=s end then SendOnClosedChannel else CloseOfClosedChannel)"
proof (cases "closed (sem g)")
  case True
  with assms show ?thesis by (simp add: Mapping_closed)
next
  case False
  have "dispatch (sem g) start end [] \<noteq> Some (Inl q)" for q
    using False by (rule dispatch_no_panic)
  moreover have "run_tasks g xs t \<noteq> Inl q" for xs t q
    by (simp add: run_tasks_found)
  moreover have "close_chan (sem g) \<noteq> Inl q" for q
    using False by (simp add: close_chan_def)
  ultimately have "Mapping sched g start end \<noteq> Some (Inl p)"
    by (simp add: Mapping_def split: option.split sum.split)
  with assms show ?thesis by simp
qed

lemma Mapping_table:
  assumes "Mapping sched g start end = Some (Inr (t, g'))" and "t k = Some v"
  shows "found g k = Some v"
proof -
  from assms(1) obtain started where "run_tasks g (sched started) Map.empty = Inr t"
    by (auto simp: Mapping_def split: option.splits sum.splits)
  then have "t = (\<lambda>k. if k \<in> set (sched started)
      then (case found g k of None \<Rightarrow> None | Some st \<Rightarrow> Some st) else None)"
    by (simp add: run_tasks_found)
  with assms(2) show ?thesis by (auto split: if_splits option.splits)
qed

lemma Mapping_content:
  assumes "Mapping sched g start end = Some (Inr (t, g'))" and "\<forall>xs. set (sched xs) = set xs"
  shows "t k = (if start <=s k \<and> k <=s end then found g k else None)"
proof -
  from assms(1) obtain started where d: "dispatch (sem g) start end [] = Some (Inr started)"
    and r: "run_tasks g (sched started) Map.empty = Inr t"
    by (auto simp: Mapping_def split: option.splits sum.splits)
  from dispatch_started [OF d] assms(2)
  have range: "set (sched started) = {k. start <=s k \<and> k <=s end}"
    by simp
  from r have t: "t = (\<lambda>k. if k \<in> set (sched started)
      then (case found g k of None \<Rightarrow> None | Some st \<Rightarrow> Some st) else None)"
    by (simp add: run_tasks_found)
  have "(case found g k of None \<Rightarrow> None | Some st \<Rightarrow> Some st) = found g k"
    by (cases "found g k") simp_all
  then show ?thesis unfolding t range by simp
qed

lemma Mapping_leaves_closed:
  assumes "Mapping sched g start end = Some (Inr (t, g'))"
  shows "closed (sem g')"
  using assms by (auto simp: Mapping_def close_chan_def split: option.splits sum.splits if_splits)

lemma Mapping_fonts:
  assumes "specialFont g1 = specialFont g2" and "standardFont g1 = standardFont g2"
    and "\<not> closed (sem g1)" and "capacity (sem g1) \<noteq> 0"
    and "\<not> closed (sem g2)" and "capacity (sem g2) \<noteq> 0"
    and "\<forall>xs. set (sched1 xs) = set xs" and "\<forall>xs. set (sched2 xs) = set xs"
  shows "map_option (map_sum id fst) (Mapping sched1 g1 start end) =
         map_option (map_sum id fst) (Mapping sched2 g2 start end)"
proof (cases "sint end < 2147483647")
  case True
  from dispatch_open [OF assms(3,4) True, of start "[]"] obtain started1
    where d1: "dispatch (sem g1) start end [] = Some (Inr started1)"
      "set started1 = {k. start <=s k \<and> k <=s end}" by auto
  from dispatch_open [OF assms(5,6) True, of start "[]"] obtain started2
    where d2: "dispatch (sem g2) start end [] = Some (Inr started2)"
      "set started2 = {k. start <=s k \<and> k <=s end}" by auto
  have "found g1 = found g2" using found_fonts [OF assms(1,2)] by (simp add: fun_eq_iff)
  moreover have "set (sched1 started1) = set (sched2 started2)"
    using assms(7,8) d1(2) d2(2) by simp
  ultimately have "run_tasks g1 (sched1 started1) Map.empty = run_tasks g2 (sched2 started2) Map.empty"
    by (simp add: run_tasks_found cong: if_cong)
  with d1(1) d2(1) assms(3,5) show ?thesis
    by (simp add: Mapping_def run_tasks_found close_chan_def)
next
  case False
  then have "sint end = sint (2147483647 :: rune)" using sint_range32 [of "end"] by simp
  then have "end = 2147483647" by (rule sint_inj32)
  then show ?thesis
    using dispatch_never_returns [OF assms(3,4)] dispatch_never_returns [OF assms(5,6)]
    by (simp add: Mapping_def)
qed

lemma SetConcurrent_positive:
  "0 < n \<Longrightarrow> SetConcurrent g n = Inr (g\<lparr>concurrent := n, sem := \<lparr>capacity = n, closed = False\<rparr>\<rparr>)"
  by (simp add: SetConcurrent_def)

section \<open>The demonstration fonts\<close>

lemma has_special_demo: "hasGlyph (Some font_special) 0xE000"
  by (simp add: hasGlyph_def font_special_def rect_box_def Empty_def word_sle_eq word_sless_alt)

lemma has_standard_demo:
  "hasGlyph (Some font_standard) 0x4E00" "hasGlyph (Some font_standard) 0x4E01"
  "hasGlyph (Some font_standard) 0x4E02"
  by (simp_all add: hasGlyph_def font_standard_def rect_box_def Empty_def word_sle_eq word_sless_alt)

lemma compare_demo:
  "\<not> compareGlyphOutlines outline_a outline_a11" "compareGlyphOutlines outline_a outline_a10"
  by (simp_all add: compareGlyphOutlines_def outline_a_def outline_a10_def outline_a11_def
      abs_diff_def tolerance_def word_sless_alt)

lemma equal_demo:
  "GlyphOutlineEqual mapper_demo 0xE000 0x4E00 =
     Inr (False, [CallGlyphOutlineEqual 0xE000 0x4E00, CallCompareGlyphOutlines])"
  "GlyphOutlineEqual mapper_demo 0xE000 0x4E01 = Inr (False, [CallGlyphOutlineEqual 0xE000 0x4E01])"
  "GlyphOutlineEqual mapper_demo 0xE000 0x4E02 =
     Inr (True, [CallGlyphOutlineEqual 0xE000 0x4E02, CallCompareGlyphOutlines])"
  by (simp_all add: GlyphOutlineEqual_def mapper_demo_def font_special_def font_standard_def
      fixed_I_def compare_demo)

lemma MappingRune_demo:
  "MappingRune mapper_demo 0xE000 =
    Inr ((0xE000, 0x4E02, True),
      [CallHasGlyph Special 0xE000,
       CallHasGlyph Standard 0x4E00, CallGlyphOutlineEqual 0xE000 0x4E00, CallCompareGlyphOutlines,
       CallHasGlyph Standard 0x4E01, CallGlyphOutlineEqual 0xE000 0x4E01,
       CallHasGlyph Standard 0x4E02, CallGlyphOutlineEqual 0xE000 0x4E02, CallCompareGlyphOutlines])"
proof -
  have fonts: "specialFont mapper_demo = Some font_special"
    "standardFont mapper_demo = Some font_standard"
    by (simp_all add: mapper_demo_def)
  show ?thesis
    by (simp add: MappingRune_def scan.simps fonts has_special_demo has_standard_demo equal_demo)
qed

lemma MappingRune_demo_absent:
  "MappingRune mapper_demo 0xE001 = Inr ((0, 0, False), [CallHasGlyph Special 0xE001])"
  by (simp add: MappingRune_def mapper_demo_def hasGlyph_def font_special_def)

lemma dispatch_demo:
  "dispatch \<lparr>capacity = 10, closed = False\<rparr> 0xE000 0xE001 [] = Some (Inr [0xE000, 0xE001])"
  by (simp add: dispatch.simps send_def word_sle_eq)

lemma Mapping_demo:
  "Mapping id mapper_demo 0xE000 0xE001 =
    Some (Inr ([0xE000 \<mapsto> 0x4E02], mapper_demo\<lparr>sem := \<lparr>capacity = 10, closed = True\<rparr>\<rparr>))"
proof -
  have "sem mapper_demo = \<lparr>capacity = 10, closed = False\<rparr>" by (simp add: mapper_demo_def)
  then show ?thesis
    by (simp add: Mapping_def dispatch_demo task_def MappingRune_demo MappingRune_demo_absent
        close_chan_def)
qed

lemma Mapping_demo_rev:
  "Mapping rev mapper_demo 0xE000 0xE001 =
    Some (Inr ([0xE000 \<mapsto> 0x4E02], mapper_demo\<lparr>sem := \<lparr>capacity = 10, closed = True\<rparr>\<rparr>))"
proof -
  have "sem mapper_demo = \<lparr>capacity = 10, closed = False\<rparr>" by (simp add: mapper_demo_def)
  then show ?thesis
    by (simp add: Mapping_def dispatch_demo task_def MappingRune_demo MappingRune_demo_absent
        close_chan_def)
qed

section \<open>Claims about the comparator\<close>

text \<open>
  C10.  Comparing an outline with itself returns true: the comparator is reflexive.
\<close>

theorem compareGlyphOutlines_refl: "compareGlyphOutlines A A"
  by (simp add: compareGlyphOutlines_def ends_loop_refl points_loop_refl)

text \<open>
  C4, as amended.  For two outlines with the same contour ends and the same number of
  points: if every pair of corresponding points is at most 10 units apart on each axis,
  the comparator returns true; if some pair is 11 or more units apart on an axis, and less
  than \<open>2^31\<close> units apart on that axis so that the \<open>int32\<close> subtraction does not wrap,
  it returns false.
\<close>

theorem compareGlyphOutlines_tolerance:
  assumes "Ends A = Ends B" and "length (Points A) = length (Points B)"
  shows "((\<forall>i < length (Points A).
            delta (X (Points A ! i)) (X (Points B ! i)) \<le> 10 \<and>
            delta (Y (Points A ! i)) (Y (Points B ! i)) \<le> 10)
          \<longrightarrow> compareGlyphOutlines A B) \<and>
         ((\<exists>i < length (Points A).
            (11 \<le> delta (X (Points A ! i)) (X (Points B ! i)) \<and>
             delta (X (Points A ! i)) (X (Points B ! i)) < 2147483648) \<or>
            (11 \<le> delta (Y (Points A ! i)) (Y (Points B ! i)) \<and>
             delta (Y (Points A ! i)) (Y (Points B ! i)) < 2147483648))
          \<longrightarrow> \<not> compareGlyphOutlines A B)"
proof (intro conjI impI)
  assume "\<forall>i < length (Points A).
            delta (X (Points A ! i)) (X (Points B ! i)) \<le> 10 \<and>
            delta (Y (Points A ! i)) (Y (Points B ! i)) \<le> 10"
  then have "points_loop (Points A) (Points B)"
    using assms(2) by (intro points_loop_within)
  then show "compareGlyphOutlines A B"
    using assms by (simp add: compareGlyphOutlines_def ends_loop_refl)
next
  assume "\<exists>i < length (Points A).
            (11 \<le> delta (X (Points A ! i)) (X (Points B ! i)) \<and>
             delta (X (Points A ! i)) (X (Points B ! i)) < 2147483648) \<or>
            (11 \<le> delta (Y (Points A ! i)) (Y (Points B ! i)) \<and>
             delta (Y (Points A ! i)) (Y (Points B ! i)) < 2147483648)"
  then obtain i where "i < length (Points A)"
    and "(11 \<le> delta (X (Points A ! i)) (X (Points B ! i)) \<and>
             delta (X (Points A ! i)) (X (Points B ! i)) < 2147483648) \<or>
            (11 \<le> delta (Y (Points A ! i)) (Y (Points B ! i)) \<and>
             delta (Y (Points A ! i)) (Y (Points B ! i)) < 2147483648)"
    by blast
  then have "\<not> points_loop (Points A) (Points B)"
    using assms(2) by (intro points_loop_beyond [of _ _ i])
  then show "\<not> compareGlyphOutlines A B"
    by (simp add: compareGlyphOutlines_def)
qed

theorem compareGlyphOutlines_tolerance_witness:
  "Ends outline_a = Ends outline_a10 \<and> length (Points outline_a) = length (Points outline_a10) \<and>
   delta (X (Points outline_a ! 0)) (X (Points outline_a10 ! 0)) = 10 \<and>
   delta (Y (Points outline_a ! 0)) (Y (Points outline_a10 ! 0)) = 10 \<and>
   delta (X (Points outline_a ! 1)) (X (Points outline_a10 ! 1)) = 10 \<and>
   delta (Y (Points outline_a ! 1)) (Y (Points outline_a10 ! 1)) = 10 \<and>
   compareGlyphOutlines outline_a outline_a10 \<and>
   Ends outline_a = Ends outline_a11 \<and> length (Points outline_a) = length (Points outline_a11) \<and>
   delta (Y (Points outline_a ! 1)) (Y (Points outline_a11 ! 1)) = 11 \<and>
   \<not> compareGlyphOutlines outline_a outline_a11"
proof -
  have within: "compareGlyphOutlines outline_a outline_a10"
    using compareGlyphOutlines_tolerance [of outline_a outline_a10]
    by (simp add: outline_a_def outline_a10_def delta_def less_Suc_eq)
  have "\<exists>i < length (Points outline_a).
          (11 \<le> delta (X (Points outline_a ! i)) (X (Points outline_a11 ! i)) \<and>
           delta (X (Points outline_a ! i)) (X (Points outline_a11 ! i)) < 2147483648) \<or>
          (11 \<le> delta (Y (Points outline_a ! i)) (Y (Points outline_a11 ! i)) \<and>
           delta (Y (Points outline_a ! i)) (Y (Points outline_a11 ! i)) < 2147483648)"
    by (rule exI [of _ 1]) (simp add: outline_a_def outline_a11_def delta_def)
  then have beyond: "\<not> compareGlyphOutlines outline_a outline_a11"
    using compareGlyphOutlines_tolerance [of outline_a outline_a11]
    by (simp add: outline_a_def outline_a11_def)
  from within beyond show ?thesis
    by (simp add: outline_a_def outline_a10_def outline_a11_def delta_def)
qed

text \<open>
  C4 as stated fails where the subtraction wraps: two points \<open>2^32 - 2\<close> units apart are
  found 2 units apart, and the outlines compare equal.
\<close>

theorem compareGlyphOutlines_wraparound_counterexample:
  "Ends outline_east = Ends outline_west \<and>
   length (Points outline_east) = length (Points outline_west) \<and>
   delta (X (Points outline_east ! 0)) (X (Points outline_west ! 0)) = 4294967294 \<and>
   compareGlyphOutlines outline_east outline_west"
  by (simp add: outline_east_def outline_west_def delta_def compareGlyphOutlines_def
      abs_diff_def tolerance_def word_sless_alt)

section \<open>Claims about the existence tester\<close>

text \<open>
  C1, as amended.  For a Private Use Area codepoint with a nonzero glyph index whose bounds
  query succeeds, \<open>hasGlyph\<close> returns true unless the bounding box is empty and the advance
  is zero at once; in that case the placeholder filter, which comes before the Private Use
  Area branch, returns false.
\<close>

theorem hasGlyph_private_use_indexed:
  assumes "0xE000 <=s c" and "c <=s 0xF8FF" and "Index f c \<noteq> 0"
    and "GlyphBounds f 12 c = (bounds, advance, True)"
  shows "hasGlyph (Some f) c \<longleftrightarrow> \<not> (Empty bounds \<and> advance = 0)"
  using assms by (simp add: hasGlyph_def index_pos)

theorem hasGlyph_private_use_indexed_witness:
  "(0xE000 :: rune) <=s 0xE000 \<and> (0xE000 :: rune) <=s 0xF8FF \<and> Index font_spaced 0xE000 \<noteq> 0 \<and>
   GlyphBounds font_spaced 12 0xE000 = (rect_empty, 768, True) \<and> Empty rect_empty \<and>
   hasGlyph (Some font_spaced) 0xE000"
  using hasGlyph_private_use_indexed [of "0xE000" font_spaced rect_empty 768]
  by (simp add: font_spaced_def rect_empty_def Empty_def word_sle_eq)

text \<open>
  C1 as stated fails: U+E000 with glyph index 7, empty bounds and zero advance is reported
  absent.
\<close>

theorem hasGlyph_blank_private_use_counterexample:
  "(0xE000 :: rune) <=s 0xE000 \<and> (0xE000 :: rune) <=s 0xF8FF \<and> Index font_blank 0xE000 \<noteq> 0 \<and>
   GlyphBounds font_blank 12 0xE000 = (rect_empty, 0, True) \<and> Empty rect_empty \<and>
   \<not> hasGlyph (Some font_blank) 0xE000"
  by (simp add: hasGlyph_def font_blank_def rect_empty_def Empty_def word_sle_eq)

text \<open>
  C2, as amended.  For every nonzero codepoint, Private Use Area or not, whose glyph index
  is 0, \<open>hasGlyph\<close> returns false whatever the bounds query answers: index 0 is terminal.
\<close>

theorem hasGlyph_index_zero:
  assumes "c \<noteq> 0" and "Index f c = 0"
  shows "\<not> hasGlyph (Some f) c"
  using assms by (simp add: hasGlyph_def)

theorem hasGlyph_index_zero_witness:
  "(0xE000 :: rune) \<noteq> 0 \<and> Index font_unmapped 0xE000 = 0 \<and> \<not> hasGlyph (Some font_unmapped) 0xE000"
  using hasGlyph_index_zero [of "0xE000" font_unmapped]
  by (simp add: font_unmapped_def)

text \<open>
  C2 as stated fails: U+E000 with glyph index 0, a non-empty bounding box and a positive
  advance is reported absent.
\<close>

theorem hasGlyph_unmapped_private_use_counterexample:
  "(0xE000 :: rune) \<noteq> 0 \<and> (0xE000 :: rune) <=s 0xE000 \<and> (0xE000 :: rune) <=s 0xF8FF \<and>
   Index font_unmapped 0xE000 = 0 \<and>
   GlyphBounds font_unmapped 12 0xE000 = (rect_box, 768, True) \<and>
   0 <s (768 :: Int26_6) \<and> \<not> Empty rect_box \<and>
   \<not> hasGlyph (Some font_unmapped) 0xE000"
  by (simp add: hasGlyph_def font_unmapped_def rect_box_def Empty_def word_sle_eq word_sless_alt)

section \<open>Claims about the resolver\<close>

text \<open>
  C5.  When \<open>MappingRune\<close> succeeds on a codepoint \<open>c\<close> it returns \<open>(c, s, true)\<close> where
  \<open>s\<close> lies in the closed interval from 0x4E00 to 0x9FFF, has a usable glyph in the standard
  font and an outline that compares equal, and no smaller codepoint of the interval has
  both.  It does succeed whenever the special font has a usable glyph for \<open>c\<close> and some
  codepoint of the interval has a usable standard glyph whose outline compares equal, and
  what it returns is then at most that codepoint: the whole interval is scanned in ascending
  order and the first match is returned.  Consequently every value of a table that
  \<open>Mapping\<close> returns lies in the interval.
\<close>

theorem MappingRune_first_match:
  "(MappingRune g c = Inr ((specialRune, standardRune, True), calls) \<longrightarrow>
      specialRune = c \<and> 0x4E00 <=s standardRune \<and> standardRune <=s 0x9FFF \<and>
      hasGlyph (standardFont g) standardRune \<and> outlines_equal g c standardRune \<and>
      (\<forall>s. 0x4E00 <=s s \<and> s <s standardRune \<longrightarrow>
         \<not> (hasGlyph (standardFont g) s \<and> outlines_equal g c s))) \<and>
   (hasGlyph (specialFont g) c \<and> 0x4E00 <=s candidate \<and> candidate <=s 0x9FFF \<and>
    hasGlyph (standardFont g) candidate \<and> outlines_equal g c candidate \<longrightarrow>
      (\<exists>first calls'. MappingRune g c = Inr ((c, first, True), calls') \<and>
         first <=s candidate)) \<and>
   (Mapping sched g start end = Some (Inr (t, g')) \<and> t k = Some v \<longrightarrow>
      0x4E00 <=s v \<and> v <=s 0x9FFF)"
proof (intro conjI impI allI)
  assume m: "MappingRune g c = Inr ((specialRune, standardRune, True), calls)"
  show "specialRune = c" "0x4E00 <=s standardRune" "standardRune <=s 0x9FFF"
    "hasGlyph (standardFont g) standardRune" "outlines_equal g c standardRune"
    by (rule MappingRune_found [OF m])+
  fix s assume "0x4E00 <=s s \<and> s <s standardRune"
  then show "\<not> (hasGlyph (standardFont g) s \<and> outlines_equal g c s)"
    using MappingRune_found(6) [OF m] by blast
next
  assume "hasGlyph (specialFont g) c \<and> 0x4E00 <=s candidate \<and> candidate <=s 0x9FFF \<and>
    hasGlyph (standardFont g) candidate \<and> outlines_equal g c candidate"
  then show "\<exists>first calls'. MappingRune g c = Inr ((c, first, True), calls') \<and>
      first <=s candidate"
    by (intro MappingRune_complete) simp_all
next
  assume "Mapping sched g start end = Some (Inr (t, g')) \<and> t k = Some v"
  then have "found g k = Some v" using Mapping_table by blast
  then show "0x4E00 <=s v" "v <=s 0x9FFF" using found_range by blast+
qed

text \<open>
  On the two demonstration fonts U+E000 resolves to U+4E02, after U+4E00 was compared and
  rejected and U+4E01 was skipped.
\<close>

theorem MappingRune_first_match_witness:
  "MappingRune mapper_demo 0xE000 =
     Inr ((0xE000, 0x4E02, True),
      [CallHasGlyph Special 0xE000,
       CallHasGlyph Standard 0x4E00, CallGlyphOutlineEqual 0xE000 0x4E00, CallCompareGlyphOutlines,
       CallHasGlyph Standard 0x4E01, CallGlyphOutlineEqual 0xE000 0x4E01,
       CallHasGlyph Standard 0x4E02, CallGlyphOutlineEqual 0xE000 0x4E02, CallCompareGlyphOutlines]) \<and>
   hasGlyph (specialFont mapper_demo) 0xE000 \<and>
   hasGlyph (standardFont mapper_demo) 0x4E02 \<and> outlines_equal mapper_demo 0xE000 0x4E02 \<and>
   \<not> outlines_equal mapper_demo 0xE000 0x4E00 \<and> \<not> outlines_equal mapper_demo 0xE000 0x4E01 \<and>
   Mapping id mapper_demo 0xE000 0xE001 =
     Some (Inr ([0xE000 \<mapsto> 0x4E02], mapper_demo\<lparr>sem := \<lparr>capacity = 10, closed = True\<rparr>\<rparr>)) \<and>
   [(0xE000 :: rune) \<mapsto> (0x4E02 :: rune)] 0xE000 = Some 0x4E02 \<and>
   (0x4E00 :: rune) <=s 0x4E02 \<and> (0x4E02 :: rune) <=s 0x9FFF"
proof -
  note first = MappingRune_first_match
    [where g = mapper_demo and c = "0xE000" and specialRune = "0xE000" and standardRune = "0x4E02"
      and candidate = "0x4E02"
      and sched = id and start = "0xE000" and ?end = "0xE001" and t = "[0xE000 \<mapsto> 0x4E02]"
      and k = "0xE000" and v = "0x4E02"]
  have found_: "hasGlyph (standardFont mapper_demo) 0x4E02 \<and> outlines_equal mapper_demo 0xE000 0x4E02 \<and>
      (0x4E00 :: rune) <=s 0x4E02 \<and> (0x4E02 :: rune) <=s 0x9FFF"
    using first MappingRune_demo Mapping_demo by simp
  have special: "hasGlyph (specialFont mapper_demo) 0xE000"
    by (simp add: mapper_demo_def has_special_demo)
  from first special found_
  have "\<exists>st calls'. MappingRune mapper_demo 0xE000 = Inr ((0xE000, st, True), calls') \<and>
      st <=s 0x4E02"
    by blast
  moreover have "\<not> outlines_equal mapper_demo 0xE000 0x4E00 \<and> \<not> outlines_equal mapper_demo 0xE000 0x4E01"
    by (simp add: outlines_equal_def equal_demo)
  moreover note found_ special MappingRune_demo Mapping_demo
  ultimately show ?thesis by simp
qed

text \<open>
  C6.  When the special font has no usable glyph for \<open>c\<close>, \<open>MappingRune\<close> returns
  not-found and the only call it made is the one to \<open>hasGlyph\<close> on the special font: no
  candidate was looked at, \<open>GlyphOutlineEqual\<close> and the comparator were not invoked.
\<close>

theorem MappingRune_without_glyph:
  assumes "\<not> hasGlyph (specialFont g) c"
  shows "MappingRune g c = Inr ((0, 0, False), [CallHasGlyph Special c])"
  using assms by (simp add: MappingRune_def)

theorem MappingRune_without_glyph_witness:
  "\<not> hasGlyph (specialFont mapper_demo) 0xE001 \<and>
   MappingRune mapper_demo 0xE001 = Inr ((0, 0, False), [CallHasGlyph Special 0xE001])"
proof -
  have absent: "\<not> hasGlyph (specialFont mapper_demo) 0xE001"
    by (simp add: mapper_demo_def hasGlyph_def font_special_def)
  from absent MappingRune_without_glyph [OF absent] show ?thesis by simp
qed

text \<open>
  C7.  If the outline of the special codepoint or of the candidate \<open>j\<close> fails to load,
  \<open>GlyphOutlineEqual\<close> answers false without calling the comparator and the scan goes on
  with candidate \<open>j + 1\<close>.  \<open>MappingRune\<close> always returns a result, never a panic.  The
  only failures of \<open>Mapping\<close> are the two panics of a closed semaphore; on an open
  semaphore with capacity, and an end below the largest \<open>int32\<close>, it returns a table
  whatever the fonts answer.
\<close>

theorem load_failure_skips_candidate:
  "(specialFont g = Some f1 \<and> standardFont g = Some f2 \<and> j \<le> 0x9fff \<and>
    (Load f1 (fixed_I 1000) (Index f1 c) HintingNone = Inl err \<or>
     Load f2 (fixed_I 1000) (Index f2 (word_of_int j)) HintingNone = Inl err) \<longrightarrow>
      GlyphOutlineEqual g c (word_of_int j) =
        Inr (False, [CallGlyphOutlineEqual c (word_of_int j)]) \<and>
      scan g c j ok log =
        scan g c (j + 1) False
          (log @ CallHasGlyph Standard (word_of_int j) #
            (if hasGlyph (standardFont g) (word_of_int j)
             then [CallGlyphOutlineEqual c (word_of_int j)] else []))) \<and>
   (\<exists>r. MappingRune g c = Inr r) \<and>
   (Mapping sched g start end = Some (Inl p) \<longrightarrow>
      closed (sem g) \<and> (p = SendOnClosedChannel \<or> p = CloseOfClosedChannel)) \<and>
   (\<not> closed (sem g) \<and> capacity (sem g) \<noteq> 0 \<and> sint end < 2147483647 \<longrightarrow>
      (\<exists>t g'. Mapping sched g start end = Some (Inr (t, g'))))"
proof (intro conjI impI)
  assume h: "specialFont g = Some f1 \<and> standardFont g = Some f2 \<and> j \<le> 0x9fff \<and>
    (Load f1 (fixed_I 1000) (Index f1 c) HintingNone = Inl err \<or>
     Load f2 (fixed_I 1000) (Index f2 (word_of_int j)) HintingNone = Inl err)"
  then show eq: "GlyphOutlineEqual g c (word_of_int j) =
      Inr (False, [CallGlyphOutlineEqual c (word_of_int j)])"
    by (intro GlyphOutlineEqual_load_failure [of g f1 f2 c err]) simp_all
  from h have "j \<le> 0x9fff" by simp
  then show "scan g c j ok log =
      scan g c (j + 1) False
        (log @ CallHasGlyph Standard (word_of_int j) #
          (if hasGlyph (standardFont g) (word_of_int j)
           then [CallGlyphOutlineEqual c (word_of_int j)] else []))"
    by (subst scan.simps) (simp add: eq)
next
  show "\<exists>r. MappingRune g c = Inr r" by (rule MappingRune_returns)
next
  assume "Mapping sched g start end = Some (Inl p)"
  from Mapping_panic [OF this]
  show "closed (sem g)" "p = SendOnClosedChannel \<or> p = CloseOfClosedChannel"
    by (simp_all split: if_splits)
next
  assume "\<not> closed (sem g) \<and> capacity (sem g) \<noteq> 0 \<and> sint end < 2147483647"
  then show "\<exists>t g'. Mapping sched g start end = Some (Inr (t, g'))"
    using Mapping_open [of g "end" sched start] by blast
qed

theorem load_failure_skips_candidate_witness:
  "specialFont mapper_demo = Some font_special \<and> standardFont mapper_demo = Some font_standard \<and>
   Load font_standard (fixed_I 1000) (Index font_standard 0x4E01) HintingNone = Inl ''no outline'' \<and>
   GlyphOutlineEqual mapper_demo 0xE000 0x4E01 = Inr (False, [CallGlyphOutlineEqual 0xE000 0x4E01]) \<and>
   scan mapper_demo 0xE000 0x4e01 False [] =
     scan mapper_demo 0xE000 0x4e02 False
       [CallHasGlyph Standard 0x4E01, CallGlyphOutlineEqual 0xE000 0x4E01] \<and>
   scan mapper_demo 0xE000 0x4e01 False [] =
     Inr ((0xE000, 0x4E02, True),
       [CallHasGlyph Standard 0x4E01, CallGlyphOutlineEqual 0xE000 0x4E01,
        CallHasGlyph Standard 0x4E02, CallGlyphOutlineEqual 0xE000 0x4E02,
        CallCompareGlyphOutlines]) \<and>
   \<not> closed (sem mapper_demo) \<and> capacity (sem mapper_demo) \<noteq> 0 \<and>
   sint (0xE001 :: rune) < 2147483647 \<and>
   Mapping id mapper_demo 0xE000 0xE001 =
     Some (Inr ([0xE000 \<mapsto> 0x4E02], mapper_demo\<lparr>sem := \<lparr>capacity = 10, closed = True\<rparr>\<rparr>)) \<and>
   Mapping id (mapper_demo\<lparr>sem := \<lparr>capacity = 10, closed = True\<rparr>\<rparr>) 0xE000 0xE001 =
     Some (Inl SendOnClosedChannel) \<and>
   closed (sem (mapper_demo\<lparr>sem := \<lparr>capacity = 10, closed = True\<rparr>\<rparr>))"
proof -
  have fonts: "specialFont mapper_demo = Some font_special"
    "standardFont mapper_demo = Some font_standard"
    by (simp_all add: mapper_demo_def)
  have load: "Load font_standard (fixed_I 1000) (Index font_standard 0x4E01) HintingNone
      = Inl ''no outline''"
    by (simp add: font_standard_def fixed_I_def)
  note skip = load_failure_skips_candidate
    [where g = mapper_demo and ?f1.0 = font_special and ?f2.0 = font_standard and j = "0x4e01"
      and c = "0xE000" and err = "''no outline''" and ok = False and log = "[]"
      and sched = id and start = "0xE000" and ?end = "0xE001"]
  have step: "GlyphOutlineEqual mapper_demo 0xE000 0x4E01 =
      Inr (False, [CallGlyphOutlineEqual 0xE000 0x4E01]) \<and>
    scan mapper_demo 0xE000 0x4e01 False [] =
      scan mapper_demo 0xE000 0x4e02 False
        [CallHasGlyph Standard 0x4E01, CallGlyphOutlineEqual 0xE000 0x4E01]"
    using skip fonts load has_standard_demo by simp
  have rest: "scan mapper_demo 0xE000 0x4e02 False
        [CallHasGlyph Standard 0x4E01, CallGlyphOutlineEqual 0xE000 0x4E01] =
      Inr ((0xE000, 0x4E02, True),
        [CallHasGlyph Standard 0x4E01, CallGlyphOutlineEqual 0xE000 0x4E01,
         CallHasGlyph Standard 0x4E02, CallGlyphOutlineEqual 0xE000 0x4E02,
         CallCompareGlyphOutlines])"
    by (subst scan.simps) (simp add: fonts has_standard_demo equal_demo)
  have again: "Mapping id (mapper_demo\<lparr>sem := \<lparr>capacity = 10, closed = True\<rparr>\<rparr>) 0xE000 0xE001 =
      Some (Inl SendOnClosedChannel)"
    by (simp add: Mapping_closed word_sle_eq)
  have shut: "closed (sem (mapper_demo\<lparr>sem := \<lparr>capacity = 10, closed = True\<rparr>\<rparr>))"
    using again load_failure_skips_candidate
      [where g = "mapper_demo\<lparr>sem := \<lparr>capacity = 10, closed = True\<rparr>\<rparr>" and sched = id
        and start = "0xE000" and ?end = "0xE001" and p = SendOnClosedChannel]
    by blast
  have opened: "\<not> closed (sem mapper_demo) \<and> capacity (sem mapper_demo) \<noteq> 0 \<and>
      sint (0xE001 :: rune) < 2147483647"
    by (simp add: mapper_demo_def)
  from step rest fonts load Mapping_demo again shut opened show ?thesis by simp
qed

section \<open>Claims about the constructor and the batch driver\<close>

text \<open>
  C8.  When both buffers parse, the constructor returns a mapper holding the two fonts,
  with limit 10 and an open semaphore, on which \<open>MappingRune\<close> and \<open>Mapping\<close> return.
  When the special buffer fails to parse the error message starts with
  \<open>parse special font failed: \<close>; when it parses and the standard buffer fails, with
  \<open>parse standard font failed: \<close>.  No message of the first kind equals one of the second.
\<close>

theorem NewGlyphOutlineMapper_result:
  "(parse specialFontData = Inr f1 \<and> parse standardFontData = Inr f2 \<longrightarrow>
      NewGlyphOutlineMapper parse specialFontData standardFontData =
        Inr \<lparr>specialFont = Some f1, standardFont = Some f2, concurrent = 10,
             sem = \<lparr>capacity = 10, closed = False\<rparr>\<rparr>) \<and>
   (parse specialFontData = Inl err \<longrightarrow>
      NewGlyphOutlineMapper parse specialFontData standardFontData =
        Inl (''parse special font failed: '' @ err)) \<and>
   (parse specialFontData = Inr f1 \<and> parse standardFontData = Inl err \<longrightarrow>
      NewGlyphOutlineMapper parse specialFontData standardFontData =
        Inl (''parse standard font failed: '' @ err)) \<and>
   ''parse special font failed: '' @ err1 \<noteq> ''parse standard font failed: '' @ err2 \<and>
   (NewGlyphOutlineMapper parse specialFontData standardFontData = Inr g \<longrightarrow>
      (\<exists>r. MappingRune g c = Inr r) \<and>
      (sint end < 2147483647 \<longrightarrow> (\<exists>t g'. Mapping sched g start end = Some (Inr (t, g')))))"
proof (intro conjI impI)
  assume g: "NewGlyphOutlineMapper parse specialFontData standardFontData = Inr g"
  then have s: "sem g = \<lparr>capacity = 10, closed = False\<rparr>"
    by (auto simp: NewGlyphOutlineMapper_def split: sum.splits)
  show "\<exists>r. MappingRune g c = Inr r" by (rule MappingRune_returns)
  assume "sint end < 2147483647"
  with s show "\<exists>t g'. Mapping sched g start end = Some (Inr (t, g'))"
    using Mapping_open [of g "end" sched start] by auto
qed (simp_all add: NewGlyphOutlineMapper_def)

theorem NewGlyphOutlineMapper_result_witness:
  "parse_demo [1] = Inr font_special \<and> parse_demo [2] = Inr font_standard \<and>
   NewGlyphOutlineMapper parse_demo [1] [2] = Inr mapper_demo \<and>
   parse_demo [7] = Inl ''bad sfnt version'' \<and>
   NewGlyphOutlineMapper parse_demo [7] [2] = Inl ''parse special font failed: bad sfnt version'' \<and>
   NewGlyphOutlineMapper parse_demo [1] [7] = Inl ''parse standard font failed: bad sfnt version'' \<and>
   MappingRune mapper_demo 0xE001 = Inr ((0, 0, False), [CallHasGlyph Special 0xE001]) \<and>
   Mapping id mapper_demo 0xE000 0xE001 =
     Some (Inr ([0xE000 \<mapsto> 0x4E02], mapper_demo\<lparr>sem := \<lparr>capacity = 10, closed = True\<rparr>\<rparr>))"
proof -
  have p: "parse_demo [1] = Inr font_special" "parse_demo [2] = Inr font_standard"
    "parse_demo [7] = Inl ''bad sfnt version''"
    by (simp_all add: parse_demo_def)
  have ok: "NewGlyphOutlineMapper parse_demo [1] [2] = Inr mapper_demo"
    using NewGlyphOutlineMapper_result
      [where parse = parse_demo and specialFontData = "[1]" and standardFontData = "[2]"
        and ?f1.0 = font_special and ?f2.0 = font_standard] p
    by (simp add: mapper_demo_def)
  have bad1: "NewGlyphOutlineMapper parse_demo [7] [2] =
      Inl ''parse special font failed: bad sfnt version''"
    using NewGlyphOutlineMapper_result
      [where parse = parse_demo and specialFontData = "[7]" and standardFontData = "[2]"
        and err = "''bad sfnt version''"] p
    by simp
  have bad2: "NewGlyphOutlineMapper parse_demo [1] [7] =
      Inl ''parse standard font failed: bad sfnt version''"
    using NewGlyphOutlineMapper_result
      [where parse = parse_demo and specialFontData = "[1]" and standardFontData = "[7]"
        and ?f1.0 = font_special and err = "''bad sfnt version''"] p
    by simp
  from p ok bad1 bad2 MappingRune_demo_absent Mapping_demo show ?thesis by simp
qed

text \<open>
  C9.  Two mappers built from the same two byte buffers, run over the same bounds under
  any two schedules of their tasks, give the same outcome, and the table of a returning
  call holds for every key of the range what \<open>MappingRune\<close> found for it and nothing
  else.  Another positive concurrency limit, set on one of them before its batch, leaves
  the table as it is: the content depends on the fonts, not on the scheduling.
\<close>

theorem Mapping_deterministic:
  assumes "NewGlyphOutlineMapper parse specialFontData standardFontData = Inr g1"
    and "NewGlyphOutlineMapper parse specialFontData standardFontData = Inr g2"
    and "\<forall>xs. set (sched1 xs) = set xs" and "\<forall>xs. set (sched2 xs) = set xs"
  shows "Mapping sched1 g1 start end = Mapping sched2 g2 start end \<and>
    (\<forall>t g'. Mapping sched1 g1 start end = Some (Inr (t, g')) \<longrightarrow>
       (\<forall>k. t k = (if start <=s k \<and> k <=s end then found g1 k else None))) \<and>
    (\<forall>n g3. 0 < n \<and> SetConcurrent g2 n = Inr g3 \<longrightarrow>
       map_option (map_sum id fst) (Mapping sched2 g3 start end) =
       map_option (map_sum id fst) (Mapping sched1 g1 start end))"
proof (intro conjI allI impI)
  from assms(1,2) have same: "g1 = g2" by simp
  then show "Mapping sched1 g1 start end = Mapping sched2 g2 start end"
    using Mapping_order [OF assms(3,4)] by simp
  show "t k = (if start <=s k \<and> k <=s end then found g1 k else None)"
    if "Mapping sched1 g1 start end = Some (Inr (t, g'))" for t g' k
    using that assms(3) by (rule Mapping_content)
  show "map_option (map_sum id fst) (Mapping sched2 g3 start end) =
      map_option (map_sum id fst) (Mapping sched1 g1 start end)"
    if "0 < n \<and> SetConcurrent g2 n = Inr g3" for n g3
  proof -
    from that have "0 < n" and "SetConcurrent g2 n = Inr g3" by simp_all
    then have g3: "g3 = g2\<lparr>concurrent := n, sem := \<lparr>capacity = n, closed = False\<rparr>\<rparr>"
      by (simp add: SetConcurrent_def)
    from assms(1) have s1: "sem g1 = \<lparr>capacity = 10, closed = False\<rparr>"
      by (auto simp: NewGlyphOutlineMapper_def split: sum.splits)
    from assms(2) have s2: "sem g2 = \<lparr>capacity = 10, closed = False\<rparr>"
      by (auto simp: NewGlyphOutlineMapper_def split: sum.splits)
    show ?thesis
      using assms(3,4) \<open>0 < n\<close> by (intro Mapping_fonts) (simp_all add: g3 s1 s2 same)
  qed
qed

theorem Mapping_deterministic_witness:
  "NewGlyphOutlineMapper parse_demo [1] [2] = Inr mapper_demo \<and>
   (\<forall>xs :: rune list. set (id xs) = set xs) \<and> (\<forall>xs :: rune list. set (rev xs) = set xs) \<and>
   Mapping id mapper_demo 0xE000 0xE001 = Mapping rev mapper_demo 0xE000 0xE001 \<and>
   Mapping rev mapper_demo 0xE000 0xE001 =
     Some (Inr ([0xE000 \<mapsto> 0x4E02], mapper_demo\<lparr>sem := \<lparr>capacity = 10, closed = True\<rparr>\<rparr>)) \<and>
   SetConcurrent mapper_demo 3 =
     Inr (mapper_demo\<lparr>concurrent := 3, sem := \<lparr>capacity = 3, closed = False\<rparr>\<rparr>) \<and>
   map_option (map_sum id fst)
     (Mapping rev (mapper_demo\<lparr>concurrent := 3, sem := \<lparr>capacity = 3, closed = False\<rparr>\<rparr>)
        0xE000 0xE001) =
     Some (Inr [0xE000 \<mapsto> 0x4E02])"
proof -
  have ok: "NewGlyphOutlineMapper parse_demo [1] [2] = Inr mapper_demo"
    by (simp add: NewGlyphOutlineMapper_def parse_demo_def mapper_demo_def)
  have s1: "\<forall>xs :: rune list. set (id xs) = set xs" and s2: "\<forall>xs :: rune list. set (rev xs) = set xs"
    by simp_all
  have set3: "SetConcurrent mapper_demo 3 =
      Inr (mapper_demo\<lparr>concurrent := 3, sem := \<lparr>capacity = 3, closed = False\<rparr>\<rparr>)"
    by (simp add: SetConcurrent_def)
  note det = Mapping_deterministic [OF ok ok s1 s2, of "0xE000" "0xE001"]
  from det have "Mapping id mapper_demo 0xE000 0xE001 = Mapping rev mapper_demo 0xE000 0xE001"
    by blast
  moreover from det have "0 < (3 :: int) \<and> SetConcurrent mapper_demo 3 =
        Inr (mapper_demo\<lparr>concurrent := 3, sem := \<lparr>capacity = 3, closed = False\<rparr>\<rparr>) \<longrightarrow>
      map_option (map_sum id fst)
        (Mapping rev (mapper_demo\<lparr>concurrent := 3, sem := \<lparr>capacity = 3, closed = False\<rparr>\<rparr>)
          0xE000 0xE001) = map_option (map_sum id fst) (Mapping id mapper_demo 0xE000 0xE001)"
    by blast
  with set3 have "map_option (map_sum id fst)
     (Mapping rev (mapper_demo\<lparr>concurrent := 3, sem := \<lparr>capacity = 3, closed = False\<rparr>\<rparr>)
        0xE000 0xE001) = map_option (map_sum id fst) (Mapping id mapper_demo 0xE000 0xE001)"
    by simp
  moreover note ok set3 Mapping_demo Mapping_demo_rev
  ultimately show ?thesis by simp
qed

text \<open>
  C3 fails on the code.  \<open>Mapping\<close> closes the semaphore of the mapper before it returns,
  so the next call of \<open>Mapping\<close> on the same mapper panics: with \<open>send on closed channel\<close>
  when its range is not empty, with \<open>close of closed channel\<close> when it is.
\<close>

theorem Mapping_second_call_panics:
  assumes "Mapping sched1 g start1 end1 = Some (Inr (t, g'))"
  shows "Mapping sched2 g' start2 end2 =
    Some (Inl (if start2 <=s end2 then SendOnClosedChannel else CloseOfClosedChannel))"
  using Mapping_leaves_closed [OF assms] by (rule Mapping_closed)

theorem Mapping_second_call_panics_witness:
  "NewGlyphOutlineMapper parse_demo [1] [2] = Inr mapper_demo \<and>
   Mapping id mapper_demo 0xE000 0xE001 =
     Some (Inr ([0xE000 \<mapsto> 0x4E02], mapper_demo\<lparr>sem := \<lparr>capacity = 10, closed = True\<rparr>\<rparr>)) \<and>
   Mapping id (mapper_demo\<lparr>sem := \<lparr>capacity = 10, closed = True\<rparr>\<rparr>) 0xE000 0xE001 =
     Some (Inl SendOnClosedChannel) \<and>
   Mapping id (mapper_demo\<lparr>sem := \<lparr>capacity = 10, closed = True\<rparr>\<rparr>) 1 0 =
     Some (Inl CloseOfClosedChannel)"
proof -
  have ok: "NewGlyphOutlineMapper parse_demo [1] [2] = Inr mapper_demo"
    by (simp add: NewGlyphOutlineMapper_def parse_demo_def mapper_demo_def)
  have "Mapping id (mapper_demo\<lparr>sem := \<lparr>capacity = 10, closed = True\<rparr>\<rparr>) 0xE000 0xE001 =
      Some (Inl SendOnClosedChannel)"
    using Mapping_second_call_panics [OF Mapping_demo, of id "0xE000" "0xE001"]
    by (simp add: word_sle_eq)
  moreover have "Mapping id (mapper_demo\<lparr>sem := \<lparr>capacity = 10, closed = True\<rparr>\<rparr>) 1 0 =
      Some (Inl CloseOfClosedChannel)"
    using Mapping_second_call_panics [OF Mapping_demo, of id 1 0]
    by (simp add: word_sle_eq)
  ultimately show ?thesis using ok Mapping_demo by simp
qed

end
